theory Spec2Isabelle
  imports Complex_Main
begin

unbundle bit_operations_syntax

section \<open>The hardware seen by the driver\<close>

text \<open>
  The driver of \<^verbatim>\<open>HD44780.py\<close> talks to the display only through calls of the
  external modules \<^verbatim>\<open>RPi.GPIO\<close> and \<^verbatim>\<open>time\<close>. The hardware is modelled by the
  sequence of those calls, oldest first. A pin id is a Python integer.
\<close>

type_synonym pin = int

datatype gpio_numbering = BOARD | BCM

datatype gpio_direction = IN | OUT

datatype call =
  GPIO_setmode gpio_numbering
| GPIO_setup pin gpio_direction
| GPIO_output pin bool
| time_sleep real

text \<open>
  The exceptions that the code can meet: \<^verbatim>\<open>IndexError\<close>, with the message that tells
  \<^verbatim>\<open>list.pop\<close> on an empty list from an index beyond the end of a string, and whatever the
  GPIO module raises when it rejects a call.
\<close>

datatype error = IndexError string | GPIOError call

text \<open>
  The GPIO module is not part of the repository: it is a parameter, the predicate telling
  which calls it accepts. A rejected call raises and leaves no trace.
\<close>

type_synonym gpio = "call \<Rightarrow> bool"

record hardware =
  trace :: "call list"

section \<open>Statements that may raise\<close>

text \<open>
  A statement maps the state before to the state after, together with its value or the
  exception that it raised.
\<close>

type_synonym ('s, 'a) stmt = "'s \<Rightarrow> (error + 'a) \<times> 's"

definition ret :: "'a \<Rightarrow> ('s, 'a) stmt" where
  "ret x s = (Inr x, s)"

definition raise :: "error \<Rightarrow> ('s, 'a) stmt" where
  "raise e s = (Inl e, s)"

text \<open>Sequencing: an exception of the first statement skips the second.\<close>

definition seq :: "('s, 'a) stmt \<Rightarrow> ('a \<Rightarrow> ('s, 'b) stmt) \<Rightarrow> ('s, 'b) stmt" where
  "seq m f s = (case m s of (Inl e, s') \<Rightarrow> (Inl e, s') | (Inr x, s') \<Rightarrow> f x s')"

definition gpio_call :: "gpio \<Rightarrow> call \<Rightarrow> ('h hardware_scheme, unit) stmt" where
  "gpio_call G c s =
     (if G c then (Inr (), s\<lparr>trace := trace s @ [c]\<rparr>) else (Inl (GPIOError c), s))"

definition sleep :: "real \<Rightarrow> ('h hardware_scheme, unit) stmt" where
  "sleep t s = (Inr (), s\<lparr>trace := trace s @ [time_sleep t]\<rparr>)"

section \<open>The class HD44780\<close>

record HD44780 =
  lcd_data_pins :: "pin list"
  lcd_rs :: pin
  lcd_e :: pin
  num_chars :: int
  lines :: "int list"

text \<open>A method runs on the hardware and on the object \<^verbatim>\<open>self\<close>.\<close>

record world = hardware +
  self :: HD44780

definition MODE_DATA :: bool where
  "MODE_DATA = True"

definition MODE_COMMAND :: bool where
  "MODE_COMMAND = False"

definition DEFAULT_DELAY :: real where
  "DEFAULT_DELAY = 0.00005"

subsection \<open>\<^verbatim>\<open>_send_data\<close>\<close>

text \<open>
  The loop \<^verbatim>\<open>for pin in self._lcd_data_pins: GPIO.output(pin, data.pop(0))\<close>.
  \<^verbatim>\<open>data.pop(0)\<close> raises \<^verbatim>\<open>IndexError\<close> on the empty list, before the call of the
  GPIO module. The value is what is left of \<^verbatim>\<open>data\<close>.
\<close>

fun output_pins :: "gpio \<Rightarrow> pin list \<Rightarrow> bool list \<Rightarrow> (world, bool list) stmt" where
  "output_pins G [] data = ret data"
| "output_pins G (p # pins) data =
     (case data of
        [] \<Rightarrow> raise (IndexError ''pop from empty list'')
      | b # rest \<Rightarrow> seq (gpio_call G (GPIO_output p b)) (\<lambda>_. output_pins G pins rest))"

definition send_data :: "gpio \<Rightarrow> bool \<Rightarrow> bool list \<Rightarrow> (world, unit) stmt" where
  "send_data G mode data =
     seq (\<lambda>w. gpio_call G (GPIO_output (lcd_rs (self w)) mode) w) (\<lambda>_.
     seq (\<lambda>w. output_pins G (lcd_data_pins (self w)) data w) (\<lambda>_.
     seq (sleep DEFAULT_DELAY) (\<lambda>_.
     seq (\<lambda>w. gpio_call G (GPIO_output (lcd_e (self w)) True) w) (\<lambda>_.
     seq (sleep DEFAULT_DELAY) (\<lambda>_.
     seq (\<lambda>w. gpio_call G (GPIO_output (lcd_e (self w)) False) w) (\<lambda>_.
     sleep DEFAULT_DELAY))))))"

subsection \<open>\<^verbatim>\<open>_send_bytes\<close>\<close>

definition send_bytes :: "gpio \<Rightarrow> int \<Rightarrow> bool \<Rightarrow> (world, unit) stmt" where
  "send_bytes G bytes mode =
     seq (send_data G mode
            [bytes AND 0x10 = 0x10, bytes AND 0x20 = 0x20,
             bytes AND 0x40 = 0x40, bytes AND 0x80 = 0x80]) (\<lambda>_.
     send_data G mode
            [bytes AND 0x01 = 0x01, bytes AND 0x02 = 0x02,
             bytes AND 0x04 = 0x04, bytes AND 0x08 = 0x08])"

subsection \<open>\<^verbatim>\<open>_init_lcd\<close>\<close>


subsection \<open>\<^verbatim>\<open>print_text\<close>\<close>

text \<open>
  \<^verbatim>\<open>message.split("\n")\<close>: the pieces of the string between the occurrences of the
  separator, of which there is always at least one.
\<close>

fun split_str :: "string \<Rightarrow> char \<Rightarrow> string list" where
  "split_str [] sep = [[]]"
| "split_str (c # cs) sep =
     (if c = sep then [] # split_str cs sep
      else (case split_str cs sep of
              [] \<Rightarrow> [[c]]
            | l # ls \<Rightarrow> (c # l) # ls))"

text \<open>
  \<^verbatim>\<open>s.ljust(width, fillchar)\<close> appends fill characters up to the width, and returns the
  string as it is when it is that long already; \<^verbatim>\<open>" " * n\<close> is empty for \<open>n \<le> 0\<close>;
  \<^verbatim>\<open>range(n)\<close> runs over \<open>0, \<dots>, n - 1\<close>; \<^verbatim>\<open>ord\<close> of a character of a byte string is its
  code.
\<close>

definition ljust :: "string \<Rightarrow> int \<Rightarrow> char \<Rightarrow> string" where
  "ljust s width fillchar = s @ replicate (nat (width - int (length s))) fillchar"

definition str_times :: "string \<Rightarrow> int \<Rightarrow> string" where
  "str_times s n = concat (replicate (nat n) s)"

definition py_range :: "int \<Rightarrow> nat list" where
  "py_range n = [0..<nat n]"

definition ord :: "char \<Rightarrow> int" where
  "ord c = of_char c"

text \<open>
  The \<^verbatim>\<open>try\<close> block of the loop body: the next pending input line, left-justified, or a
  blank line when \<^verbatim>\<open>lines.pop(0)\<close> raises \<^verbatim>\<open>IndexError\<close>. The value is the line and what is
  left of \<^verbatim>\<open>lines\<close>.
\<close>

definition next_line :: "int \<Rightarrow> string list \<Rightarrow> string \<times> string list" where
  "next_line n pending =
     (case pending of
        [] \<Rightarrow> (str_times '' '' n, [])
      | l # ls \<Rightarrow> (ljust l n (CHR '' ''), ls))"

text \<open>
  The inner loop over \<^verbatim>\<open>range(self._num_chars)\<close>. Indexing a string beyond its end raises
  \<^verbatim>\<open>IndexError\<close>, before anything is sent.
\<close>

fun send_chars :: "gpio \<Rightarrow> string \<Rightarrow> nat list \<Rightarrow> (world, unit) stmt" where
  "send_chars G line [] = ret ()"
| "send_chars G line (character_index # rest) =
     (if character_index < length line
      then seq (send_bytes G (ord (line ! character_index)) MODE_DATA)
                (\<lambda>_. send_chars G line rest)
      else raise (IndexError ''string index out of range''))"

text \<open>The outer loop over \<^verbatim>\<open>self._lines\<close>, with the pending input lines as loop state.\<close>

fun print_lines :: "gpio \<Rightarrow> int list \<Rightarrow> string list \<Rightarrow> (world, unit) stmt" where
  "print_lines G [] pending = ret ()"
| "print_lines G (memory_location # rest) pending =
     seq (send_bytes G memory_location MODE_COMMAND) (\<lambda>_ w.
       (case next_line (num_chars (self w)) pending of
          (line, pending') \<Rightarrow>
            seq (send_chars G line (py_range (num_chars (self w))))
                (\<lambda>_. print_lines G rest pending') w))"

definition print_text :: "gpio \<Rightarrow> string \<Rightarrow> (world, unit) stmt" where
  "print_text G message w = print_lines G (lines (self w)) (split_str message (CHR 0x0A)) w"

subsection \<open>\<^verbatim>\<open>__init__\<close>\<close>



section \<open>Observing a statement\<close>

text \<open>The calls that a statement adds to the trace of the hardware.\<close>

definition calls_of :: "(world, 'a) stmt \<Rightarrow> world \<Rightarrow> call list" where
  "calls_of m w = drop (length (trace w)) (trace (snd (m w)))"

text \<open>
  \<open>emits m d r evs\<close>: run on the object \<open>d\<close>, whatever the hardware has seen before, the
  statement \<open>m\<close> makes the calls \<open>evs\<close>, ends with \<open>r\<close> and leaves the object as it was.
  A statement is regular when it behaves so on every object.
\<close>

definition emits :: "(world, 'a) stmt \<Rightarrow> HD44780 \<Rightarrow> error + 'a \<Rightarrow> call list \<Rightarrow> bool" where
  "emits m d r evs \<longleftrightarrow> (\<forall>t. m \<lparr>trace = t, self = d\<rparr> = (r, \<lparr>trace = t @ evs, self = d\<rparr>))"

definition regular :: "(world, 'a) stmt \<Rightarrow> bool" where
  "regular m \<longleftrightarrow> (\<forall>d. \<exists>r evs. emits m d r evs)"

text \<open>A statement that never raises the exception \<open>err\<close>.\<close>

definition never_raises :: "('s, 'a) stmt \<Rightarrow> error \<Rightarrow> bool" where
  "never_raises m err \<longleftrightarrow> (\<forall>s. fst (m s) \<noteq> Inl err)"

text \<open>The waits of a sequence of calls, and the levels that it puts on one pin.\<close>

fun waits :: "call list \<Rightarrow> real list" where
  "waits [] = []"
| "waits (time_sleep t # cs) = t # waits cs"
| "waits (_ # cs) = waits cs"

fun levels :: "pin \<Rightarrow> call list \<Rightarrow> bool list" where
  "levels p [] = []"
| "levels p (GPIO_output q b # cs) = (if q = p then b # levels p cs else levels p cs)"
| "levels p (_ # cs) = levels p cs"

text \<open>The GPIO module accepts every write to a pin.\<close>

definition accepts_output :: "gpio \<Rightarrow> bool" where
  "accepts_output G \<longleftrightarrow> (\<forall>p b. G (GPIO_output p b))"

section \<open>The protocol in the words of the specification\<close>

text \<open>
  One nibble transfer: the register-select line, the data lines in pin order, the settle
  delay, the strobe raised, the hold delay, the strobe lowered, the recovery delay.
\<close>

definition nibble_transfer :: "HD44780 \<Rightarrow> bool \<Rightarrow> bool list \<Rightarrow> call list" where
  "nibble_transfer d mode bits =
     [GPIO_output (lcd_rs d) mode] @
     map (\<lambda>(p, b). GPIO_output p b) (zip (lcd_data_pins d) bits) @
     [time_sleep DEFAULT_DELAY, GPIO_output (lcd_e d) True,
      time_sleep DEFAULT_DELAY, GPIO_output (lcd_e d) False,
      time_sleep DEFAULT_DELAY]"

text \<open>One byte transfer: the high nibble, then the low nibble, least significant bit first.\<close>

definition byte_transfer :: "HD44780 \<Rightarrow> bool \<Rightarrow> int \<Rightarrow> call list" where
  "byte_transfer d mode v =
     nibble_transfer d mode [bit v 4, bit v 5, bit v 6, bit v 7] @
     nibble_transfer d mode [bit v 0, bit v 1, bit v 2, bit v 3]"

text \<open>
  One display line: the command that sets the cursor, then one data byte per character, the
  code of the character, from left to right.
\<close>

definition line_transfer :: "HD44780 \<Rightarrow> int \<Rightarrow> string \<Rightarrow> call list" where
  "line_transfer d a row =
     byte_transfer d False a @ concat (map (\<lambda>c. byte_transfer d True (of_char c)) row)"

text \<open>The whole display: each line address in order, with its row.\<close>

definition render :: "HD44780 \<Rightarrow> string list \<Rightarrow> call list" where
  "render d rows = concat (map (\<lambda>(a, row). line_transfer d a row) (zip (lines d) rows))"

text \<open>
  The line formatter, \<open>format(inputLines, columns, lineCount)\<close>: one row per display line; the
  row of an input line is its first \<open>columns\<close> characters, followed by spaces when the line is
  shorter; a display line without an input line is blank.
\<close>

definition line_formatter :: "string list \<Rightarrow> nat \<Rightarrow> nat \<Rightarrow> string list" where
  "line_formatter inputLines columns lineCount =
     map (\<lambda>i. if i < length inputLines
              then take columns (inputLines ! i) @
                   replicate (columns - length (inputLines ! i)) (CHR '' '')
              else replicate columns (CHR '' ''))
       [0..<lineCount]"

text \<open>A text is its lines with a line break between each two.\<close>

fun join_lines :: "string list \<Rightarrow> string" where
  "join_lines [] = []"
| "join_lines [l] = l"
| "join_lines (l # l' # ls) = l @ CHR 0x0A # join_lines (l' # ls)"

text \<open>
  The strings that the loop of \<^verbatim>\<open>print_text\<close> binds to \<^verbatim>\<open>line\<close>, one per line address: the
  loop itself with the transfers left out.
\<close>

fun format_lines :: "int \<Rightarrow> 'a list \<Rightarrow> string list \<Rightarrow> string list" where
  "format_lines n [] pending = []"
| "format_lines n (a # locs) pending =
     (case next_line n pending of (line, pending') \<Rightarrow> line # format_lines n locs pending')"

text \<open>The characters of each display line that are sent: the first \<^verbatim>\<open>num_chars\<close> of the string.\<close>

definition sent_rows :: "int \<Rightarrow> 'a list \<Rightarrow> string list \<Rightarrow> string list" where
  "sent_rows n locs pending = map (take (nat n)) (format_lines n locs pending)"


text \<open>
  The display of the examples of the specification: 20 columns, two lines, wired as in the
  docstring of the constructor.
\<close>

definition example_lcd :: HD44780 where
  "example_lcd =
     \<lparr>lcd_data_pins = [25, 24, 23, 18], lcd_rs = 7, lcd_e = 8,
      num_chars = 20, lines = [0x80, 0xC0]\<rparr>"

section \<open>The calculus of calls\<close>

lemma emitsD: "emits m (self w) r evs \<Longrightarrow> m w = (r, w\<lparr>trace := trace w @ evs\<rparr>)"
  by (cases w) (simp add: emits_def)

lemma emits_calls_of: "emits m (self w) r evs \<Longrightarrow> calls_of m w = evs"
  by (simp add: calls_of_def emitsD)

lemma emits_ret: "emits (ret x) d (Inr x) []"
  by (simp add: emits_def ret_def)

lemma emits_raise: "emits (raise e) d (Inl e) []"
  by (simp add: emits_def raise_def)

lemma emits_sleep: "emits (sleep t) d (Inr ()) [time_sleep t]"
  by (simp add: emits_def sleep_def)

lemma emits_gpio_ok: "G c \<Longrightarrow> emits (gpio_call G c) d (Inr ()) [c]"
  by (simp add: emits_def gpio_call_def)

lemma emits_gpio_rejected: "\<not> G c \<Longrightarrow> emits (gpio_call G c) d (Inl (GPIOError c)) []"
  by (simp add: emits_def gpio_call_def)

lemma emits_seq:
  "emits m d (Inr x) e1 \<Longrightarrow> emits (f x) d r e2 \<Longrightarrow> emits (seq m f) d r (e1 @ e2)"
  by (simp add: emits_def seq_def)

lemma emits_seq_raise:
  "emits m d (Inl err) e1 \<Longrightarrow> emits (seq m f) d (Inl err) e1"
  by (simp add: emits_def seq_def)

lemma emits_seq_Cons:
  "emits m d (Inr x) [c] \<Longrightarrow> emits (f x) d r evs \<Longrightarrow> emits (seq m f) d r (c # evs)"
  using emits_seq [of m d x "[c]" f r evs] by simp

lemma emits_self: "emits (F d) d r evs \<Longrightarrow> emits (\<lambda>w. F (self w) w) d r evs"
  by (simp add: emits_def)

lemma regularI: "(\<And>d. emits m d (r d) (evs d)) \<Longrightarrow> regular m"
  unfolding regular_def by (intro allI exI)

lemma regular_ret: "regular (ret x)"
  by (rule regularI) (rule emits_ret)

lemma regular_raise: "regular (raise e)"
  by (rule regularI) (rule emits_raise)

lemma regular_sleep: "regular (sleep t)"
  by (rule regularI) (rule emits_sleep)

lemma regular_gpio: "regular (gpio_call G c)"
proof (cases "G c")
  case True
  then have "\<And>d. emits (gpio_call G c) d (Inr ()) [c]"
    by (rule emits_gpio_ok)
  then show ?thesis by (rule regularI)
next
  case False
  then have "\<And>d. emits (gpio_call G c) d (Inl (GPIOError c)) []"
    by (rule emits_gpio_rejected)
  then show ?thesis by (rule regularI)
qed

lemma regularD: "regular m \<Longrightarrow> \<exists>r evs. emits m d r evs"
  by (simp add: regular_def)

lemma regular_seq:
  assumes m: "regular m" and f: "\<And>x. regular (f x)"
  shows "regular (seq m f)"
  unfolding regular_def
proof
  fix d
  from regularD [OF m, of d] obtain r1 e1 where 1: "emits m d r1 e1"
    by (elim exE)
  show "\<exists>r evs. emits (seq m f) d r evs"
  proof (cases r1)
    case (Inl err)
    with 1 have "emits (seq m f) d (Inl err) e1"
      by (simp add: emits_seq_raise)
    then show ?thesis by (intro exI)
  next
    case (Inr x)
    from regularD [OF f, of x d] obtain r2 e2 where 2: "emits (f x) d r2 e2"
      by (elim exE)
    from 1 Inr have "emits m d (Inr x) e1" by simp
    from emits_seq [where f = f, OF this 2] show ?thesis by (intro exI)
  qed
qed

lemma regular_self: "(\<And>d. regular (F d)) \<Longrightarrow> regular (\<lambda>w. F (self w) w)"
proof -
  assume a: "\<And>d. regular (F d)"
  show ?thesis
    unfolding regular_def
  proof
    fix d
    from a have "regular (F d)" .
    from regularD [OF this, of d] obtain r evs where "emits (F d) d r evs"
      by (elim exE)
    then have "emits (\<lambda>w. F (self w) w) d r evs" by (rule emits_self)
    then show "\<exists>r evs. emits (\<lambda>w. F (self w) w) d r evs" by (intro exI)
  qed
qed

lemma regular_output_pins: "regular (output_pins G pins data)"
proof (induction pins arbitrary: data)
  case Nil
  show ?case by (simp add: regular_ret)
next
  case (Cons p pins)
  show ?case
    by (cases data) (simp_all add: regular_raise regular_seq regular_gpio Cons.IH)
qed

lemma regular_output_rs: "regular (\<lambda>w. gpio_call G (GPIO_output (lcd_rs (self w)) b) w)"
  by (rule regular_self [where F = "\<lambda>d. gpio_call G (GPIO_output (lcd_rs d) b)"])
     (rule regular_gpio)

lemma regular_output_e: "regular (\<lambda>w. gpio_call G (GPIO_output (lcd_e (self w)) b) w)"
  by (rule regular_self [where F = "\<lambda>d. gpio_call G (GPIO_output (lcd_e d) b)"])
     (rule regular_gpio)

lemma regular_output_data:
  "regular (\<lambda>w. output_pins G (lcd_data_pins (self w)) data w)"
  by (rule regular_self [where F = "\<lambda>d. output_pins G (lcd_data_pins d) data"])
     (rule regular_output_pins)

lemma regular_send_data: "regular (send_data G mode data)"
  unfolding send_data_def
  by (intro regular_seq regular_sleep regular_output_rs regular_output_e regular_output_data)

lemma regular_send_bytes: "regular (send_bytes G v mode)"
  unfolding send_bytes_def by (intro regular_seq regular_send_data)

lemma regular_send_chars: "regular (send_chars G line idx)"
  by (induction idx) (simp_all add: regular_ret regular_raise regular_seq regular_send_bytes)

lemma regular_print_lines: "regular (print_lines G locs pending)"
proof (induction locs arbitrary: pending)
  case Nil
  show ?case by (simp add: regular_ret)
next
  case (Cons a locs)
  have body: "regular (\<lambda>w. case next_line (num_chars d) pending of
          (line, pending') \<Rightarrow>
            seq (send_chars G line (py_range (num_chars d)))
             (\<lambda>_. print_lines G locs pending') w)" for d :: HD44780
  proof (cases "next_line (num_chars d) pending")
    case (Pair line pending')
    have "regular (seq (send_chars G line (py_range (num_chars d)))
             (\<lambda>_. print_lines G locs pending'))"
      by (intro regular_seq regular_send_chars Cons.IH)
    with Pair show ?thesis by simp
  qed
  have "regular (\<lambda>w. case next_line (num_chars (self w)) pending of
          (line, pending') \<Rightarrow>
            seq (send_chars G line (py_range (num_chars (self w))))
             (\<lambda>_. print_lines G locs pending') w)"
    by (rule regular_self [where F = "\<lambda>d w. case next_line (num_chars d) pending of
          (line, pending') \<Rightarrow>
            seq (send_chars G line (py_range (num_chars d)))
             (\<lambda>_. print_lines G locs pending') w"]) (rule body)
  then show ?case
    unfolding print_lines.simps by (intro regular_seq regular_send_bytes)
qed

lemma regular_print_text: "regular (print_text G message)"
proof -
  have "regular (\<lambda>w. print_lines G (lines (self w)) (split_str message (CHR 0x0A)) w)"
    by (rule regular_self [where F = "\<lambda>d. print_lines G (lines d) (split_str message (CHR 0x0A))"])
       (rule regular_print_lines)
  then show ?thesis
    unfolding print_text_def [abs_def] .
qed


lemma and_bit: "(v AND 2 ^ n = 2 ^ n) = bit (v::int) n" (is "?L = ?R")
proof
  assume ?L
  then have "bit (v AND 2 ^ n) n = bit ((2::int) ^ n) n" by simp
  then show ?R by (simp add: bit_and_iff bit_exp_iff)
next
  assume ?R
  then show ?L by (auto intro!: bit_eqI simp add: bit_and_iff bit_exp_iff)
qed

lemma and_bits:
  "(v AND 0x01 = 0x01) = bit (v::int) 0" "(v AND 0x02 = 0x02) = bit v 1"
  "(v AND 0x04 = 0x04) = bit v 2" "(v AND 0x08 = 0x08) = bit v 3"
  "(v AND 0x10 = 0x10) = bit v 4" "(v AND 0x20 = 0x20) = bit v 5"
  "(v AND 0x40 = 0x40) = bit v 6" "(v AND 0x80 = 0x80) = bit v 7"
  using and_bit [of v 0] and_bit [of v 1] and_bit [of v 2] and_bit [of v 3]
    and_bit [of v 4] and_bit [of v 5] and_bit [of v 6] and_bit [of v 7]
  by simp_all

lemma emits_output_pins:
  "accepts_output G \<Longrightarrow> length pins \<le> length data \<Longrightarrow>
   emits (output_pins G pins data) d (Inr (drop (length pins) data))
     (map (\<lambda>(p, b). GPIO_output p b) (zip pins data))"
proof (induction pins arbitrary: data)
  case Nil
  show ?case by (simp add: emits_ret)
next
  case (Cons p pins)
  from Cons.prems obtain b rest where data: "data = b # rest"
    by (cases data) auto
  from Cons.prems have "emits (gpio_call G (GPIO_output p b)) d (Inr ()) [GPIO_output p b]"
    by (simp add: emits_gpio_ok accepts_output_def)
  moreover from Cons.prems data
  have "emits (output_pins G pins rest) d (Inr (drop (length pins) rest))
     (map (\<lambda>(p, b). GPIO_output p b) (zip pins rest))"
    by (intro Cons.IH) simp_all
  ultimately have "emits (seq (gpio_call G (GPIO_output p b)) (\<lambda>_. output_pins G pins rest)) d
     (Inr (drop (length pins) rest))
     ([GPIO_output p b] @ map (\<lambda>(p, b). GPIO_output p b) (zip pins rest))"
    by (rule emits_seq)
  with data show ?case by simp
qed

lemma emits_send_data:
  assumes G: "accepts_output G" and len: "length (lcd_data_pins d) \<le> length data"
  shows "emits (send_data G mode data) d (Inr ()) (nibble_transfer d mode data)"
proof -
  have out: "emits (\<lambda>w. gpio_call G (GPIO_output (f (self w)) b) w) d (Inr ())
      [GPIO_output (f d) b]" for f b
    using G
    by (intro emits_self [where F = "\<lambda>d. gpio_call G (GPIO_output (f d) b)"] emits_gpio_ok)
       (simp add: accepts_output_def)
  have pins: "emits (\<lambda>w. output_pins G (lcd_data_pins (self w)) data w) d
      (Inr (drop (length (lcd_data_pins d)) data))
      (map (\<lambda>(p, b). GPIO_output p b) (zip (lcd_data_pins d) data))"
    using G len
    by (intro emits_self [where F = "\<lambda>d. output_pins G (lcd_data_pins d) data"]
          emits_output_pins)
  show ?thesis
    unfolding send_data_def nibble_transfer_def
    apply (rule emits_seq [OF out])
    apply (rule emits_seq [OF pins])
    apply (rule emits_seq_Cons [OF emits_sleep])
    apply (rule emits_seq_Cons [OF out])
    apply (rule emits_seq_Cons [OF emits_sleep])
    apply (rule emits_seq_Cons [OF out])
    apply (rule emits_sleep)
    done
qed

lemma emits_send_bytes:
  assumes G: "accepts_output G" and len: "length (lcd_data_pins d) \<le> 4"
  shows "emits (send_bytes G v mode) d (Inr ()) (byte_transfer d mode v)"
proof -
  have nibble: "emits (send_data G mode [b0, b1, b2, b3]) d (Inr ())
      (nibble_transfer d mode [b0, b1, b2, b3])" for b0 b1 b2 b3
    using len by (intro emits_send_data [OF G]) simp
  show ?thesis
    unfolding send_bytes_def byte_transfer_def and_bits
    by (rule emits_seq [OF nibble nibble])
qed

lemma emits_send_chars:
  assumes G: "accepts_output G" and len: "length (lcd_data_pins d) \<le> 4"
  shows "\<forall>i\<in>set idx. i < length line \<Longrightarrow>
    emits (send_chars G line idx) d (Inr ())
      (concat (map (\<lambda>i. byte_transfer d MODE_DATA (ord (line ! i))) idx))"
proof (induction idx)
  case Nil
  show ?case by (simp add: emits_ret)
next
  case (Cons i idx)
  have "emits (seq (send_bytes G (ord (line ! i)) MODE_DATA) (\<lambda>_. send_chars G line idx)) d
     (Inr ())
     (byte_transfer d MODE_DATA (ord (line ! i)) @
      concat (map (\<lambda>i. byte_transfer d MODE_DATA (ord (line ! i))) idx))"
    using Cons by (intro emits_seq [OF emits_send_bytes [OF G len]]) simp
  with Cons.prems show ?case by simp
qed

lemma take_as_map_nth: "k \<le> length xs \<Longrightarrow> map (\<lambda>i. f (xs ! i)) [0..<k] = map f (take k xs)"
  by (simp add: list_eq_iff_nth_eq)

lemma next_line_length: "next_line n pending = (line, pending') \<Longrightarrow> nat n \<le> length line"
  by (auto simp add: next_line_def ljust_def str_times_def split: list.splits)

lemma emits_print_lines:
  assumes G: "accepts_output G" and len: "length (lcd_data_pins d) \<le> 4"
  shows "emits (print_lines G locs pending) d (Inr ())
     (concat (map (\<lambda>(a, line). line_transfer d a (take (nat (num_chars d)) line))
        (zip locs (format_lines (num_chars d) locs pending))))"
proof (induction locs arbitrary: pending)
  case Nil
  show ?case by (simp add: emits_ret)
next
  case (Cons a locs)
  obtain line pending' where nl: "next_line (num_chars d) pending = (line, pending')"
    by (cases "next_line (num_chars d) pending")
  let ?rest = "concat (map (\<lambda>(a, line). line_transfer d a (take (nat (num_chars d)) line))
        (zip locs (format_lines (num_chars d) locs pending')))"
  let ?chars = "concat (map (\<lambda>c. byte_transfer d MODE_DATA (ord c)) (take (nat (num_chars d)) line))"
  have "emits (send_chars G line (py_range (num_chars d))) d (Inr ())
      (concat (map (\<lambda>i. byte_transfer d MODE_DATA (ord (line ! i))) (py_range (num_chars d))))"
    using next_line_length [OF nl]
    by (intro emits_send_chars G len) (simp add: py_range_def)
  then have chars: "emits (send_chars G line (py_range (num_chars d))) d (Inr ()) ?chars"
    using next_line_length [OF nl]
    by (simp add: py_range_def take_as_map_nth [where f = "\<lambda>c. byte_transfer d MODE_DATA (ord c)"])
  have "emits (seq (send_chars G line (py_range (num_chars d)))
             (\<lambda>_. print_lines G locs pending')) d (Inr ()) (?chars @ ?rest)"
    by (rule emits_seq [OF chars Cons.IH])
  with nl have "emits (\<lambda>w. case next_line (num_chars d) pending of
          (line, pending') \<Rightarrow>
            seq (send_chars G line (py_range (num_chars d)))
             (\<lambda>_. print_lines G locs pending') w) d (Inr ()) (?chars @ ?rest)"
    by simp
  then have body: "emits (\<lambda>w. case next_line (num_chars (self w)) pending of
          (line, pending') \<Rightarrow>
            seq (send_chars G line (py_range (num_chars (self w))))
             (\<lambda>_. print_lines G locs pending') w) d (Inr ()) (?chars @ ?rest)"
    by (rule emits_self [where F = "\<lambda>d w. case next_line (num_chars d) pending of
          (line, pending') \<Rightarrow>
            seq (send_chars G line (py_range (num_chars d)))
             (\<lambda>_. print_lines G locs pending') w"])
  have "emits (print_lines G (a # locs) pending) d (Inr ())
      (byte_transfer d MODE_COMMAND a @ ?chars @ ?rest)"
    unfolding print_lines.simps
    by (rule emits_seq [OF emits_send_bytes [OF G len] body])
  then show ?case
    by (simp add: nl line_transfer_def MODE_COMMAND_def MODE_DATA_def ord_def)
qed

lemma emits_print_text:
  assumes G: "accepts_output G" and len: "length (lcd_data_pins d) \<le> 4"
  shows "emits (print_text G message) d (Inr ())
     (render d (sent_rows (num_chars d) (lines d) (split_str message (CHR 0x0A))))"
proof -
  have eq: "render d (sent_rows (num_chars d) (lines d) (split_str message (CHR 0x0A))) =
     concat (map (\<lambda>(a, line). line_transfer d a (take (nat (num_chars d)) line))
       (zip (lines d) (format_lines (num_chars d) (lines d) (split_str message (CHR 0x0A)))))"
    by (simp add: render_def sent_rows_def zip_map2 case_prod_unfold comp_def)
  have "emits (\<lambda>w. print_lines G (lines (self w)) (split_str message (CHR 0x0A)) w) d (Inr ())
     (render d (sent_rows (num_chars d) (lines d) (split_str message (CHR 0x0A))))"
    unfolding eq
    by (rule emits_self [where F = "\<lambda>d. print_lines G (lines d) (split_str message (CHR 0x0A))"])
       (rule emits_print_lines [OF G len])
  then show ?thesis
    unfolding print_text_def [abs_def] .
qed




section \<open>The byte transfer\<close>

text \<open>
  C1. For every byte value and every mode, \<^verbatim>\<open>_send_bytes\<close> issues exactly two nibble
  transfers, the high nibble first: the first one puts bits 4 to 7 of the value on the data
  lines 0 to 3, the second one bits 0 to 3, and both put the mode on the register-select
  line, which is low for a command and high for data.
\<close>

theorem send_bytes_two_nibbles:
  assumes "accepts_output G" and "lcd_data_pins (self w) = [p0, p1, p2, p3]"
  shows "send_bytes G v mode =
           seq (send_data G mode [bit v 4, bit v 5, bit v 6, bit v 7])
               (\<lambda>_. send_data G mode [bit v 0, bit v 1, bit v 2, bit v 3])
       \<and> send_bytes G v mode w =
           (Inr (), w\<lparr>trace := trace w @
              [GPIO_output (lcd_rs (self w)) mode,
               GPIO_output p0 (bit v 4), GPIO_output p1 (bit v 5),
               GPIO_output p2 (bit v 6), GPIO_output p3 (bit v 7),
               time_sleep DEFAULT_DELAY, GPIO_output (lcd_e (self w)) True,
               time_sleep DEFAULT_DELAY, GPIO_output (lcd_e (self w)) False,
               time_sleep DEFAULT_DELAY,
               GPIO_output (lcd_rs (self w)) mode,
               GPIO_output p0 (bit v 0), GPIO_output p1 (bit v 1),
               GPIO_output p2 (bit v 2), GPIO_output p3 (bit v 3),
               time_sleep DEFAULT_DELAY, GPIO_output (lcd_e (self w)) True,
               time_sleep DEFAULT_DELAY, GPIO_output (lcd_e (self w)) False,
               time_sleep DEFAULT_DELAY]\<rparr>)
       \<and> MODE_COMMAND = False \<and> MODE_DATA = True"
proof -
  have "send_bytes G v mode w = (Inr (), w\<lparr>trace := trace w @ byte_transfer (self w) mode v\<rparr>)"
    using assms by (intro emitsD emits_send_bytes) simp_all
  with assms(2) show ?thesis
    by (simp add: send_bytes_def and_bits byte_transfer_def nibble_transfer_def
        MODE_COMMAND_def MODE_DATA_def)
qed

theorem send_bytes_two_nibbles_witness:
  "accepts_output (\<lambda>_. True)
   \<and> lcd_data_pins (self \<lparr>trace = [], self = example_lcd\<rparr>) = [25, 24, 23, 18]
   \<and> send_bytes (\<lambda>_. True) 0x28 False \<lparr>trace = [], self = example_lcd\<rparr> =
       (Inr (), \<lparr>trace =
          [GPIO_output 7 False,
           GPIO_output 25 False, GPIO_output 24 True,
           GPIO_output 23 False, GPIO_output 18 False,
           time_sleep DEFAULT_DELAY, GPIO_output 8 True,
           time_sleep DEFAULT_DELAY, GPIO_output 8 False,
           time_sleep DEFAULT_DELAY,
           GPIO_output 7 False,
           GPIO_output 25 False, GPIO_output 24 False,
           GPIO_output 23 False, GPIO_output 18 True,
           time_sleep DEFAULT_DELAY, GPIO_output 8 True,
           time_sleep DEFAULT_DELAY, GPIO_output 8 False,
           time_sleep DEFAULT_DELAY],
         self = example_lcd\<rparr>)"
proof -
  have G: "accepts_output (\<lambda>_. True)"
    by (simp add: accepts_output_def)
  have pins: "lcd_data_pins (self \<lparr>trace = [], self = example_lcd\<rparr>) = [25, 24, 23, 18]"
    by (simp add: example_lcd_def)
  from send_bytes_two_nibbles [OF G pins, of "0x28" False, THEN conjunct2, THEN conjunct1] G pins
  show ?thesis
    by (simp add: example_lcd_def)
qed

section \<open>The nibble transfer\<close>

text \<open>
  C2. Every nibble transfer makes exactly these calls: the mode on the register-select
  line; the four bits on the four data lines, in pin order; a wait of the fixed delay; the
  enable line raised; the same wait; the enable line lowered; the same wait. So the enable
  line is raised once and lowered once per nibble, and there are three equal waits per
  nibble, six per byte.
\<close>

theorem send_data_sequence:
  assumes "accepts_output G" and "lcd_data_pins (self w) = [p0, p1, p2, p3]"
  shows "send_data G mode [b0, b1, b2, b3] w =
           (Inr (), w\<lparr>trace := trace w @
              [GPIO_output (lcd_rs (self w)) mode,
               GPIO_output p0 b0, GPIO_output p1 b1, GPIO_output p2 b2, GPIO_output p3 b3,
               time_sleep DEFAULT_DELAY, GPIO_output (lcd_e (self w)) True,
               time_sleep DEFAULT_DELAY, GPIO_output (lcd_e (self w)) False,
               time_sleep DEFAULT_DELAY]\<rparr>)
       \<and> waits (calls_of (send_data G mode [b0, b1, b2, b3]) w) =
           [DEFAULT_DELAY, DEFAULT_DELAY, DEFAULT_DELAY]
       \<and> waits (calls_of (send_bytes G v mode) w) =
           [DEFAULT_DELAY, DEFAULT_DELAY, DEFAULT_DELAY,
            DEFAULT_DELAY, DEFAULT_DELAY, DEFAULT_DELAY]
       \<and> (lcd_e (self w) \<notin> {lcd_rs (self w), p0, p1, p2, p3} \<longrightarrow>
            levels (lcd_e (self w)) (calls_of (send_data G mode [b0, b1, b2, b3]) w) =
              [True, False])"
proof -
  have nibble: "emits (send_data G mode [b0, b1, b2, b3]) (self w) (Inr ())
      (nibble_transfer (self w) mode [b0, b1, b2, b3])"
    using assms by (intro emits_send_data) simp_all
  have byte: "emits (send_bytes G v mode) (self w) (Inr ()) (byte_transfer (self w) mode v)"
    using assms by (intro emits_send_bytes) simp_all
  from assms(2) show ?thesis
    by (simp add: emitsD [OF nibble] emits_calls_of [OF nibble] emits_calls_of [OF byte]
        byte_transfer_def nibble_transfer_def)
qed

theorem send_data_sequence_witness:
  "accepts_output (\<lambda>_. True)
   \<and> lcd_data_pins (self \<lparr>trace = [], self = example_lcd\<rparr>) = [25, 24, 23, 18]
   \<and> send_data (\<lambda>_. True) True [False, True, True, False] \<lparr>trace = [], self = example_lcd\<rparr> =
       (Inr (), \<lparr>trace =
          [GPIO_output 7 True,
           GPIO_output 25 False, GPIO_output 24 True,
           GPIO_output 23 True, GPIO_output 18 False,
           time_sleep DEFAULT_DELAY, GPIO_output 8 True,
           time_sleep DEFAULT_DELAY, GPIO_output 8 False,
           time_sleep DEFAULT_DELAY],
         self = example_lcd\<rparr>)
   \<and> waits (calls_of (send_bytes (\<lambda>_. True) 0x48 True) \<lparr>trace = [], self = example_lcd\<rparr>) =
       [DEFAULT_DELAY, DEFAULT_DELAY, DEFAULT_DELAY,
        DEFAULT_DELAY, DEFAULT_DELAY, DEFAULT_DELAY]
   \<and> (8::int) \<notin> {7, 25, 24, 23, 18}
   \<and> levels 8 (calls_of (send_data (\<lambda>_. True) True [False, True, True, False])
         \<lparr>trace = [], self = example_lcd\<rparr>) = [True, False]"
proof -
  have G: "accepts_output (\<lambda>_. True)"
    by (simp add: accepts_output_def)
  have pins: "lcd_data_pins (self \<lparr>trace = [], self = example_lcd\<rparr>) = [25, 24, 23, 18]"
    by (simp add: example_lcd_def)
  from send_data_sequence [OF G pins, of True False True True False "0x48"] G pins
  show ?thesis
    by (simp add: example_lcd_def)
qed

section \<open>Statements that keep the object and ignore the past\<close>


section \<open>Statements that never index a string out of range\<close>

lemma never_ret: "never_raises (ret x) err"
  by (simp add: never_raises_def ret_def)

lemma never_raise: "e \<noteq> err \<Longrightarrow> never_raises (raise e) err"
  by (simp add: never_raises_def raise_def)

lemma never_sleep: "never_raises (sleep t) err"
  by (simp add: never_raises_def sleep_def)

lemma never_gpio: "never_raises (gpio_call G c) (IndexError msg)"
  by (simp add: never_raises_def gpio_call_def)

lemma never_seq:
  assumes m: "never_raises m err" and f: "\<And>x. never_raises (f x) err"
  shows "never_raises (seq m f) err"
  unfolding never_raises_def
proof
  fix s
  obtain r s' where ms: "m s = (r, s')" by (cases "m s")
  from m have "fst (m s) \<noteq> Inl err" by (simp add: never_raises_def)
  with ms have r: "r \<noteq> Inl err" by simp
  show "fst (seq m f s) \<noteq> Inl err"
  proof (cases r)
    case (Inl e)
    with r ms show ?thesis by (simp add: seq_def)
  next
    case (Inr x)
    from f have "fst (f x s') \<noteq> Inl err" by (simp add: never_raises_def)
    with Inr ms show ?thesis by (simp add: seq_def)
  qed
qed

lemma never_self: "(\<And>d. never_raises (F d) err) \<Longrightarrow> never_raises (\<lambda>w. F (self w) w) err"
  by (simp add: never_raises_def)

lemma never_output_pins:
  "never_raises (output_pins G pins data) (IndexError ''string index out of range'')"
proof (induction pins arbitrary: data)
  case Nil
  show ?case by (simp add: never_ret)
next
  case (Cons p pins)
  show ?case
  proof (cases data)
    case Nil
    then show ?thesis by (simp add: never_raise)
  next
    case (Cons b rest)
    have "never_raises (seq (gpio_call G (GPIO_output p b)) (\<lambda>_. output_pins G pins rest))
       (IndexError ''string index out of range'')"
      by (intro never_seq never_gpio Cons.IH)
    with Cons show ?thesis by simp
  qed
qed

lemma never_output_self:
  "never_raises (\<lambda>w. gpio_call G (GPIO_output (f (self w)) b) w) (IndexError msg)"
  by (simp add: never_raises_def gpio_call_def)

lemma never_send_data:
  "never_raises (send_data G mode data) (IndexError ''string index out of range'')"
proof -
  have pins: "never_raises (\<lambda>w. output_pins G (lcd_data_pins (self w)) data w)
      (IndexError ''string index out of range'')"
    by (rule never_self [where F = "\<lambda>d. output_pins G (lcd_data_pins d) data"])
       (rule never_output_pins)
  show ?thesis
    unfolding send_data_def
    by (intro never_seq never_sleep never_output_self pins)
qed

lemma never_send_bytes:
  "never_raises (send_bytes G v mode) (IndexError ''string index out of range'')"
  unfolding send_bytes_def by (intro never_seq never_send_data)

lemma next_line_covers: "nat n \<le> length (fst (next_line n pending))"
  by (cases pending) (simp_all add: next_line_def ljust_def str_times_def)

lemma never_send_chars:
  "\<forall>i\<in>set idx. i < length line \<Longrightarrow>
   never_raises (send_chars G line idx) (IndexError ''string index out of range'')"
proof (induction idx)
  case Nil
  show ?case by (simp add: never_ret)
next
  case (Cons i idx)
  then have "never_raises (seq (send_bytes G (ord (line ! i)) MODE_DATA) (\<lambda>_. send_chars G line idx))
     (IndexError ''string index out of range'')"
    by (intro never_seq never_send_bytes) simp
  with Cons.prems show ?case by simp
qed

lemma never_print_lines:
  "never_raises (print_lines G locs pending) (IndexError ''string index out of range'')"
proof (induction locs arbitrary: pending)
  case Nil
  show ?case by (simp add: never_ret)
next
  case (Cons a locs)
  have body: "never_raises (\<lambda>w. case next_line (num_chars d) pending of
          (line, pending') \<Rightarrow>
            seq (send_chars G line (py_range (num_chars d)))
             (\<lambda>_. print_lines G locs pending') w)
        (IndexError ''string index out of range'')" for d :: HD44780
  proof (cases "next_line (num_chars d) pending")
    case (Pair line pending')
    have "never_raises (send_chars G line (py_range (num_chars d)))
        (IndexError ''string index out of range'')"
      using next_line_length [OF Pair] by (intro never_send_chars) (simp add: py_range_def)
    then have "never_raises (seq (send_chars G line (py_range (num_chars d)))
             (\<lambda>_. print_lines G locs pending')) (IndexError ''string index out of range'')"
      by (intro never_seq Cons.IH)
    with Pair show ?thesis by simp
  qed
  have "never_raises (\<lambda>w. case next_line (num_chars (self w)) pending of
          (line, pending') \<Rightarrow>
            seq (send_chars G line (py_range (num_chars (self w))))
             (\<lambda>_. print_lines G locs pending') w)
        (IndexError ''string index out of range'')"
    by (rule never_self [where F = "\<lambda>d w. case next_line (num_chars d) pending of
          (line, pending') \<Rightarrow>
            seq (send_chars G line (py_range (num_chars d)))
             (\<lambda>_. print_lines G locs pending') w"]) (rule body)
  then show ?case
    unfolding print_lines.simps by (intro never_seq never_send_bytes)
qed

lemma never_print_text:
  "never_raises (print_text G message) (IndexError ''string index out of range'')"
proof -
  have "never_raises (\<lambda>w. print_lines G (lines (self w)) (split_str message (CHR 0x0A)) w)
      (IndexError ''string index out of range'')"
    by (rule never_self [where F = "\<lambda>d. print_lines G (lines d) (split_str message (CHR 0x0A))"])
       (rule never_print_lines)
  then show ?thesis
    unfolding print_text_def [abs_def] .
qed

section \<open>The formatted lines\<close>

lemma length_format_lines: "length (format_lines n locs pending) = length locs"
  by (induction locs arbitrary: pending) (simp_all split: prod.splits)

lemma format_lines_nth:
  "i < length locs \<Longrightarrow>
   format_lines n locs pending ! i =
     (if i < length pending then pending ! i @ replicate (nat n - length (pending ! i)) (CHR '' '')
      else replicate (nat n) (CHR '' ''))"
proof (induction locs arbitrary: pending i)
  case Nil
  then show ?case by simp
next
  case (Cons a locs)
  show ?case
  proof (cases i)
    case 0
    then show ?thesis
      by (cases pending) (simp_all add: next_line_def ljust_def str_times_def nat_diff_distrib')
  next
    case (Suc j)
    with Cons.prems have j: "j < length locs" by simp
    show ?thesis
      using Cons.IH [OF j] Suc
      by (cases pending) (simp_all add: next_line_def ljust_def str_times_def)
  qed
qed

lemma format_lines_take:
  "format_lines n locs (take (length locs) pending) = format_lines n locs pending"
proof (induction locs arbitrary: pending)
  case Nil
  show ?case by simp
next
  case (Cons a locs)
  then show ?case
    by (cases pending) (simp_all add: next_line_def)
qed

lemma format_lines_covers:
  "line \<in> set (format_lines n locs pending) \<Longrightarrow> nat n \<le> length line"
proof (induction locs arbitrary: pending)
  case Nil
  then show ?case by simp
next
  case (Cons a locs)
  obtain l p where nl: "next_line n pending = (l, p)"
    by (cases "next_line n pending")
  from next_line_length [OF nl] Cons show ?case
    by (auto simp add: nl)
qed

section \<open>Splitting a text and joining its lines\<close>

lemma split_str_not_Nil: "split_str s sep \<noteq> []"
  by (induction s) (auto split: list.splits)

lemma join_lines_Cons: "join_lines ((c # l) # ls) = c # join_lines (l # ls)"
  by (cases ls) simp_all

lemma join_lines_split_str: "join_lines (split_str s (CHR 0x0A)) = s"
proof (induction s)
  case Nil
  show ?case by simp
next
  case (Cons c cs)
  obtain l ls where sp: "split_str cs (CHR 0x0A) = l # ls"
    using split_str_not_Nil [of cs "CHR 0x0A"] by (cases "split_str cs (CHR 0x0A)") auto
  with Cons show ?case
    by (simp add: join_lines_Cons)
qed

lemma split_str_no_sep: "l \<in> set (split_str s sep) \<Longrightarrow> sep \<notin> set l"
  by (induction s arbitrary: l) (auto split: if_splits list.splits)

lemma split_str_line: "sep \<notin> set l \<Longrightarrow> split_str l sep = [l]"
  by (induction l) auto

lemma split_str_append: "sep \<notin> set l \<Longrightarrow> split_str (l @ sep # rest) sep = l # split_str rest sep"
  by (induction l) auto

lemma split_str_join_lines:
  "ls \<noteq> [] \<Longrightarrow> \<forall>l\<in>set ls. CHR 0x0A \<notin> set l \<Longrightarrow>
   split_str (join_lines ls) (CHR 0x0A) = ls"
  by (induction ls rule: join_lines.induct) (simp_all add: split_str_line split_str_append)

section \<open>The rows that are sent\<close>

lemma sent_rows_eq: "sent_rows n locs pending = line_formatter pending (nat n) (length locs)"
proof (rule nth_equalityI)
  show "length (sent_rows n locs pending) = length (line_formatter pending (nat n) (length locs))"
    by (simp add: sent_rows_def line_formatter_def length_format_lines)
next
  fix i assume "i < length (sent_rows n locs pending)"
  then have i: "i < length locs"
    by (simp add: sent_rows_def length_format_lines)
  then show "sent_rows n locs pending ! i = line_formatter pending (nat n) (length locs) ! i"
    by (simp add: sent_rows_def line_formatter_def length_format_lines format_lines_nth)
qed

lemma zip_map_upt:
  "zip xs (map f [0..<length xs]) = map (\<lambda>i. (xs ! i, f i)) [0..<length xs]"
  by (rule nth_equalityI) simp_all

lemma take_take_pad:
  "take c (take c l) @ replicate (c - length (take c l)) x = take c l @ replicate (c - length l) x"
  by (cases "length l \<le> c") simp_all

lemma line_formatter_truncated:
  "line_formatter (map (take columns) ls) columns lineCount = line_formatter ls columns lineCount"
  unfolding line_formatter_def
proof (rule map_cong [OF refl])
  fix i
  show "(if i < length (map (take columns) ls)
         then take columns (map (take columns) ls ! i) @
              replicate (columns - length (map (take columns) ls ! i)) (CHR '' '')
         else replicate columns (CHR '' '')) =
        (if i < length ls
         then take columns (ls ! i) @ replicate (columns - length (ls ! i)) (CHR '' '')
         else replicate columns (CHR '' ''))"
  proof (cases "i < length ls")
    case True
    then show ?thesis
      using take_take_pad [of columns "ls ! i" "CHR '' ''"] by simp
  next
    case False
    then show ?thesis by simp
  qed
qed

lemma line_formatter_dropped:
  "line_formatter (take lineCount ls) columns lineCount = line_formatter ls columns lineCount"
  unfolding line_formatter_def
proof (rule map_cong [OF refl])
  fix i assume "i \<in> set [0..<lineCount]"
  then have i: "i < lineCount" by simp
  show "(if i < length (take lineCount ls)
         then take columns (take lineCount ls ! i) @
              replicate (columns - length (take lineCount ls ! i)) (CHR '' '')
         else replicate columns (CHR '' '')) =
        (if i < length ls
         then take columns (ls ! i) @ replicate (columns - length (ls ! i)) (CHR '' '')
         else replicate columns (CHR '' ''))"
  proof (cases "i < length ls")
    case True
    with i show ?thesis by simp
  next
    case False
    with i show ?thesis by simp
  qed
qed

lemma print_text_rows:
  assumes G: "accepts_output G" and len: "length (lcd_data_pins (self w)) = 4"
  shows "print_text G message w =
    (Inr (), w\<lparr>trace := trace w @
       render (self w)
         (line_formatter (split_str message (CHR 0x0A)) (nat (num_chars (self w)))
            (length (lines (self w))))\<rparr>)"
proof -
  have "emits (print_text G message) (self w) (Inr ())
     (render (self w)
        (sent_rows (num_chars (self w)) (lines (self w)) (split_str message (CHR 0x0A))))"
    using len by (intro emits_print_text G) simp
  from emitsD [OF this] show ?thesis
    by (simp add: sent_rows_eq)
qed

lemma replicate_20:
  "replicate 20 x = [x, x, x, x, x, x, x, x, x, x, x, x, x, x, x, x, x, x, x, x]"
  by (simp add: numeral_eq_Suc)

section \<open>The constructor\<close>






section \<open>The line formatter\<close>

text \<open>
  C3. For an input of \<open>k\<close> lines and a geometry of \<open>n\<close> line addresses and width \<open>w\<close>, the
  formatting step gives exactly \<open>n\<close> rows, each of length exactly \<open>w\<close>. The first \<open>min k n\<close>
  are the input lines in order, padded with spaces or truncated to width \<open>w\<close>; the others
  are \<open>w\<close> spaces. The rows are those of the line formatter of the specification, and they
  are what \<^verbatim>\<open>print_text\<close> sends.
\<close>

theorem line_formatter_rows:
  "sent_rows n locs pending = line_formatter pending (nat n) (length locs)
   \<and> length (sent_rows n locs pending) = length locs
   \<and> (\<forall>i<length locs. length (sent_rows n locs pending ! i) = nat n)
   \<and> (\<forall>i<min (length pending) (length locs).
        sent_rows n locs pending ! i =
          take (nat n) (pending ! i) @ replicate (nat n - length (pending ! i)) (CHR '' ''))
   \<and> (\<forall>i<length locs. min (length pending) (length locs) \<le> i \<longrightarrow>
        sent_rows n locs pending ! i = replicate (nat n) (CHR '' ''))
   \<and> (accepts_output G \<and> length (lcd_data_pins (self w)) = 4 \<longrightarrow>
        print_text G message w =
          (Inr (), w\<lparr>trace := trace w @
             render (self w)
               (sent_rows (num_chars (self w)) (lines (self w))
                  (split_str message (CHR 0x0A)))\<rparr>))"
proof (intro conjI allI impI)
  show "sent_rows n locs pending = line_formatter pending (nat n) (length locs)"
    by (rule sent_rows_eq)
  show "length (sent_rows n locs pending) = length locs"
    by (simp add: sent_rows_def length_format_lines)
next
  fix i assume "i < length locs"
  then show "length (sent_rows n locs pending ! i) = nat n"
    by (auto simp add: sent_rows_eq line_formatter_def)
next
  fix i assume "i < min (length pending) (length locs)"
  then show "sent_rows n locs pending ! i =
          take (nat n) (pending ! i) @ replicate (nat n - length (pending ! i)) (CHR '' '')"
    by (simp add: sent_rows_eq line_formatter_def)
next
  fix i assume "i < length locs" and "min (length pending) (length locs) \<le> i"
  then show "sent_rows n locs pending ! i = replicate (nat n) (CHR '' '')"
    by (simp add: sent_rows_eq line_formatter_def)
next
  assume "accepts_output G \<and> length (lcd_data_pins (self w)) = 4"
  then show "print_text G message w =
          (Inr (), w\<lparr>trace := trace w @
             render (self w)
               (sent_rows (num_chars (self w)) (lines (self w))
                  (split_str message (CHR 0x0A)))\<rparr>)"
    by (simp add: print_text_rows sent_rows_eq)
qed

theorem line_formatter_rows_witness:
  "sent_rows 20 [0x80, 0xC0 :: int] [''AAAAAAAAAAAAAAAAAAAAAAAAA'', ''Hi'', ''more''] =
     [''AAAAAAAAAAAAAAAAAAAA'', ''Hi'' @ replicate 18 (CHR '' '')]
   \<and> sent_rows 20 [0x80, 0xC0 :: int] [''Hi''] =
     [''Hi'' @ replicate 18 (CHR '' ''), replicate 20 (CHR '' '')]
   \<and> print_text (\<lambda>_. True) ''Hi'' \<lparr>trace = [], self = example_lcd\<rparr> =
     (Inr (), \<lparr>trace = render example_lcd [''Hi'' @ replicate 18 (CHR '' ''), replicate 20 (CHR '' '')],
        self = example_lcd\<rparr>)"
proof -
  have G: "accepts_output (\<lambda>_. True) \<and> length (lcd_data_pins (self \<lparr>trace = [], self = example_lcd\<rparr>)) = 4"
    by (simp add: accepts_output_def example_lcd_def)
  have geometry: "num_chars example_lcd = 20" "lines example_lcd = [0x80, 0xC0]"
    by (simp_all add: example_lcd_def)
  note a = line_formatter_rows [of 20 "[0x80, 0xC0 :: int]"
      "[''AAAAAAAAAAAAAAAAAAAAAAAAA'', ''Hi'', ''more'']", THEN conjunct1]
  note b = line_formatter_rows [of 20 "[0x80, 0xC0 :: int]" "[''Hi'']", THEN conjunct1]
  note c = line_formatter_rows [where G = "\<lambda>_. True" and w = "\<lparr>trace = [], self = example_lcd\<rparr>"
      and message = "''Hi''", THEN conjunct2, THEN conjunct2, THEN conjunct2, THEN conjunct2,
      THEN conjunct2, THEN mp, OF G]
  have 1: "sent_rows 20 [0x80, 0xC0 :: int] [''AAAAAAAAAAAAAAAAAAAAAAAAA'', ''Hi'', ''more''] =
     [''AAAAAAAAAAAAAAAAAAAA'', ''Hi'' @ replicate 18 (CHR '' '')]"
    unfolding a by (simp add: line_formatter_def)
  have 2: "sent_rows 20 [0x80, 0xC0 :: int] [''Hi''] =
     [''Hi'' @ replicate 18 (CHR '' ''), replicate 20 (CHR '' '')]"
    unfolding b by (simp add: line_formatter_def)
  from c 2 have 3: "print_text (\<lambda>_. True) ''Hi'' \<lparr>trace = [], self = example_lcd\<rparr> =
     (Inr (), \<lparr>trace = render example_lcd [''Hi'' @ replicate 18 (CHR '' ''), replicate 20 (CHR '' '')],
        self = example_lcd\<rparr>)"
    by (simp add: geometry)
  from 1 2 3 show ?thesis by simp
qed

section \<open>Rendering a text\<close>

text \<open>
  C4. \<^verbatim>\<open>print_text\<close> splits the text at the line breaks: the pieces contain no line break
  and, joined by line breaks, give the text back. Then, for each line address in order, it
  makes one command transfer of the address followed by exactly \<^verbatim>\<open>num_chars\<close> data transfers,
  one per character of the row, from left to right, each sending the code of the character.
  On the display of 20 columns with the addresses \<open>0x80\<close> and \<open>0xC0\<close>, the text \<^verbatim>\<open>Hi\<close> gives
  the command \<open>0x80\<close>, the data \<open>0x48\<close>, \<open>0x69\<close> and 18 times \<open>0x20\<close>, the command \<open>0xC0\<close> and
  20 times \<open>0x20\<close>.
\<close>

theorem print_text_transfers:
  assumes "accepts_output G" and "length (lcd_data_pins (self w)) = 4"
  shows "join_lines (split_str message (CHR 0x0A)) = message
       \<and> list_all (\<lambda>l. CHR 0x0A \<notin> set l) (split_str message (CHR 0x0A))
       \<and> print_text G message w =
           (Inr (), w\<lparr>trace := trace w @
              concat (map (\<lambda>(a, row).
                  byte_transfer (self w) False a @
                  concat (map (\<lambda>c. byte_transfer (self w) True (of_char c)) row))
                (zip (lines (self w))
                   (line_formatter (split_str message (CHR 0x0A))
                      (nat (num_chars (self w))) (length (lines (self w))))))\<rparr>)
       \<and> length (line_formatter (split_str message (CHR 0x0A))
                  (nat (num_chars (self w))) (length (lines (self w)))) = length (lines (self w))
       \<and> list_all (\<lambda>row. length row = nat (num_chars (self w)))
            (line_formatter (split_str message (CHR 0x0A))
               (nat (num_chars (self w))) (length (lines (self w))))"
proof (intro conjI)
  show "join_lines (split_str message (CHR 0x0A)) = message"
    by (rule join_lines_split_str)
  show "list_all (\<lambda>l. CHR 0x0A \<notin> set l) (split_str message (CHR 0x0A))"
    by (simp add: list_all_iff split_str_no_sep)
  show "print_text G message w =
           (Inr (), w\<lparr>trace := trace w @
              concat (map (\<lambda>(a, row).
                  byte_transfer (self w) False a @
                  concat (map (\<lambda>c. byte_transfer (self w) True (of_char c)) row))
                (zip (lines (self w))
                   (line_formatter (split_str message (CHR 0x0A))
                      (nat (num_chars (self w))) (length (lines (self w))))))\<rparr>)"
    using print_text_rows [OF assms, of message]
    by (simp add: render_def line_transfer_def)
  show "length (line_formatter (split_str message (CHR 0x0A))
                  (nat (num_chars (self w))) (length (lines (self w)))) = length (lines (self w))"
    by (simp add: line_formatter_def)
  show "list_all (\<lambda>row. length row = nat (num_chars (self w)))
            (line_formatter (split_str message (CHR 0x0A))
               (nat (num_chars (self w))) (length (lines (self w))))"
    by (auto simp add: line_formatter_def list_all_iff)
qed

theorem print_text_transfers_witness:
  "print_text (\<lambda>_. True) ''Hi'' \<lparr>trace = [], self = example_lcd\<rparr> =
     (Inr (), \<lparr>trace =
        byte_transfer example_lcd False 0x80 @
        byte_transfer example_lcd True 0x48 @
        byte_transfer example_lcd True 0x69 @
        concat (replicate 18 (byte_transfer example_lcd True 0x20)) @
        byte_transfer example_lcd False 0xC0 @
        concat (replicate 20 (byte_transfer example_lcd True 0x20)),
      self = example_lcd\<rparr>)
   \<and> print_text (\<lambda>_. True) (''ab'' @ CHR 0x0A # ''c'') \<lparr>trace = [], self = example_lcd\<rparr> =
     (Inr (), \<lparr>trace =
        byte_transfer example_lcd False 0x80 @
        byte_transfer example_lcd True 0x61 @
        byte_transfer example_lcd True 0x62 @
        concat (replicate 18 (byte_transfer example_lcd True 0x20)) @
        byte_transfer example_lcd False 0xC0 @
        byte_transfer example_lcd True 0x63 @
        concat (replicate 19 (byte_transfer example_lcd True 0x20)),
      self = example_lcd\<rparr>)"
proof -
  have G: "accepts_output (\<lambda>_. True)"
    by (simp add: accepts_output_def)
  have pins: "length (lcd_data_pins (self \<lparr>trace = [], self = example_lcd\<rparr>)) = 4"
    by (simp add: example_lcd_def)
  have geometry: "num_chars example_lcd = 20" "lines example_lcd = [0x80, 0xC0]"
    by (simp_all add: example_lcd_def)
  note hi = print_text_transfers [OF G pins, of "''Hi''", THEN conjunct2, THEN conjunct2,
      THEN conjunct1]
  note two = print_text_transfers [OF G pins, of "''ab'' @ CHR 0x0A # ''c''", THEN conjunct2,
      THEN conjunct2, THEN conjunct1]
  from hi have 1: "print_text (\<lambda>_. True) ''Hi'' \<lparr>trace = [], self = example_lcd\<rparr> =
     (Inr (), \<lparr>trace =
        byte_transfer example_lcd False 0x80 @
        byte_transfer example_lcd True 0x48 @
        byte_transfer example_lcd True 0x69 @
        concat (replicate 18 (byte_transfer example_lcd True 0x20)) @
        byte_transfer example_lcd False 0xC0 @
        concat (replicate 20 (byte_transfer example_lcd True 0x20)),
      self = example_lcd\<rparr>)"
    by (simp add: geometry line_formatter_def)
  from two have 2: "print_text (\<lambda>_. True) (''ab'' @ CHR 0x0A # ''c'') \<lparr>trace = [], self = example_lcd\<rparr> =
     (Inr (), \<lparr>trace =
        byte_transfer example_lcd False 0x80 @
        byte_transfer example_lcd True 0x61 @
        byte_transfer example_lcd True 0x62 @
        concat (replicate 18 (byte_transfer example_lcd True 0x20)) @
        byte_transfer example_lcd False 0xC0 @
        byte_transfer example_lcd True 0x63 @
        concat (replicate 19 (byte_transfer example_lcd True 0x20)),
      self = example_lcd\<rparr>)"
    by (simp add: geometry line_formatter_def)
  from 1 2 show ?thesis by (rule conjI)
qed

text \<open>
  C6. Rendering the same text twice in succession makes the same calls twice, and ends the
  same way: nothing that the first call leaves behind changes what the second one does.
\<close>

theorem print_text_twice_same:
  "calls_of (print_text G message) (snd (print_text G message w)) =
     calls_of (print_text G message) w
   \<and> fst (print_text G message (snd (print_text G message w))) = fst (print_text G message w)"
proof -
  from regularD [OF regular_print_text, of G message "self w"]
  obtain r evs where e: "emits (print_text G message) (self w) r evs"
    by (elim exE)
  have 1: "print_text G message w = (r, w\<lparr>trace := trace w @ evs\<rparr>)"
    by (rule emitsD [OF e])
  have "emits (print_text G message) (self (w\<lparr>trace := trace w @ evs\<rparr>)) r evs"
    using e by simp
  from emitsD [OF this]
  have 2: "print_text G message (w\<lparr>trace := trace w @ evs\<rparr>) =
      (r, w\<lparr>trace := (trace w @ evs) @ evs\<rparr>)"
    by simp
  show ?thesis
    by (simp add: calls_of_def 1 2)
qed

text \<open>
  C7. Of an input line longer than the width, exactly the first \<^verbatim>\<open>num_chars\<close> characters are
  sent, as they are; the rest is dropped and not wrapped onto the next display line, whose
  row comes from the next input line. Input lines beyond the number of line addresses are
  never sent. So truncating every input line to the width, or dropping the input lines
  beyond the last line address, before rendering, changes no call. Of a line of 25
  characters on a display of width 20, the first 20 are sent.
\<close>

theorem print_text_truncates:
  assumes "accepts_output G" and "length (lcd_data_pins (self w)) = 4"
    and "ls \<noteq> []" and "\<forall>l\<in>set ls. CHR 0x0A \<notin> set l"
  shows "print_text G (join_lines ls) w =
           (Inr (), w\<lparr>trace := trace w @
              concat (map (\<lambda>i.
                  byte_transfer (self w) False (lines (self w) ! i) @
                  concat (map (\<lambda>c. byte_transfer (self w) True (of_char c))
                    (if i < length ls
                     then take (nat (num_chars (self w))) (ls ! i) @
                          replicate (nat (num_chars (self w)) - length (ls ! i)) (CHR '' '')
                     else replicate (nat (num_chars (self w))) (CHR '' ''))))
                [0..<length (lines (self w))])\<rparr>)
       \<and> print_text G (join_lines (map (take (nat (num_chars (self w)))) ls)) w =
           print_text G (join_lines ls) w
       \<and> (lines (self w) \<noteq> [] \<longrightarrow>
           print_text G (join_lines (take (length (lines (self w))) ls)) w =
             print_text G (join_lines ls) w)"
proof -
  have rows: "print_text G (join_lines ls') w =
      (Inr (), w\<lparr>trace := trace w @
         render (self w)
           (line_formatter ls' (nat (num_chars (self w))) (length (lines (self w))))\<rparr>)"
    if "ls' \<noteq> []" and "\<forall>l\<in>set ls'. CHR 0x0A \<notin> set l" for ls'
    using print_text_rows [OF assms(1,2), of "join_lines ls'"] split_str_join_lines [OF that]
    by simp
  have 1: "print_text G (join_lines ls) w =
           (Inr (), w\<lparr>trace := trace w @
              concat (map (\<lambda>i.
                  byte_transfer (self w) False (lines (self w) ! i) @
                  concat (map (\<lambda>c. byte_transfer (self w) True (of_char c))
                    (if i < length ls
                     then take (nat (num_chars (self w))) (ls ! i) @
                          replicate (nat (num_chars (self w)) - length (ls ! i)) (CHR '' '')
                     else replicate (nat (num_chars (self w))) (CHR '' ''))))
                [0..<length (lines (self w))])\<rparr>)"
    by (simp add: rows [OF assms(3,4)] render_def line_formatter_def zip_map_upt
        line_transfer_def comp_def)
  have "map (take (nat (num_chars (self w)))) ls \<noteq> []"
    and "\<forall>l\<in>set (map (take (nat (num_chars (self w)))) ls). CHR 0x0A \<notin> set l"
    using assms(3,4) by (auto dest: in_set_takeD)
  then have 2: "print_text G (join_lines (map (take (nat (num_chars (self w)))) ls)) w =
           print_text G (join_lines ls) w"
    by (simp add: rows assms(3,4) line_formatter_truncated)
  have 3: "print_text G (join_lines (take (length (lines (self w))) ls)) w =
             print_text G (join_lines ls) w" if "lines (self w) \<noteq> []"
  proof -
    have "take (length (lines (self w))) ls \<noteq> []"
      and "\<forall>l\<in>set (take (length (lines (self w))) ls). CHR 0x0A \<notin> set l"
      using assms(3,4) that by (auto dest: in_set_takeD)
    then show ?thesis
      by (simp add: rows assms(3,4) line_formatter_dropped)
  qed
  from 1 2 3 show ?thesis by simp
qed

theorem print_text_truncates_witness:
  "print_text (\<lambda>_. True) ''AAAAAAAAAAAAAAAAAAAAAAAAA'' \<lparr>trace = [], self = example_lcd\<rparr> =
     (Inr (), \<lparr>trace =
        byte_transfer example_lcd False 0x80 @
        concat (replicate 20 (byte_transfer example_lcd True 0x41)) @
        byte_transfer example_lcd False 0xC0 @
        concat (replicate 20 (byte_transfer example_lcd True 0x20)),
      self = example_lcd\<rparr>)
   \<and> print_text (\<lambda>_. True) (''abcdef'' @ CHR 0x0A # ''g'' @ CHR 0x0A # ''hi'')
       \<lparr>trace = [], self = example_lcd\<lparr>num_chars := 4\<rparr>\<rparr> =
     (Inr (), \<lparr>trace =
        byte_transfer (example_lcd\<lparr>num_chars := 4\<rparr>) False 0x80 @
        byte_transfer (example_lcd\<lparr>num_chars := 4\<rparr>) True 0x61 @
        byte_transfer (example_lcd\<lparr>num_chars := 4\<rparr>) True 0x62 @
        byte_transfer (example_lcd\<lparr>num_chars := 4\<rparr>) True 0x63 @
        byte_transfer (example_lcd\<lparr>num_chars := 4\<rparr>) True 0x64 @
        byte_transfer (example_lcd\<lparr>num_chars := 4\<rparr>) False 0xC0 @
        byte_transfer (example_lcd\<lparr>num_chars := 4\<rparr>) True 0x67 @
        byte_transfer (example_lcd\<lparr>num_chars := 4\<rparr>) True 0x20 @
        byte_transfer (example_lcd\<lparr>num_chars := 4\<rparr>) True 0x20 @
        byte_transfer (example_lcd\<lparr>num_chars := 4\<rparr>) True 0x20,
      self = example_lcd\<lparr>num_chars := 4\<rparr>\<rparr>)"
proof -
  have G: "accepts_output (\<lambda>_. True)"
    by (simp add: accepts_output_def)
  have pins: "length (lcd_data_pins (self \<lparr>trace = [], self = example_lcd\<rparr>)) = 4"
    "length (lcd_data_pins (self \<lparr>trace = [], self = example_lcd\<lparr>num_chars := 4\<rparr>\<rparr>)) = 4"
    by (simp_all add: example_lcd_def)
  have geometry: "num_chars example_lcd = 20" "lines example_lcd = [0x80, 0xC0]"
    "lines (example_lcd\<lparr>num_chars := 4\<rparr>) = [0x80, 0xC0]"
    by (simp_all add: example_lcd_def)
  have long: "[''AAAAAAAAAAAAAAAAAAAAAAAAA''] \<noteq> []"
    "\<forall>l\<in>set [''AAAAAAAAAAAAAAAAAAAAAAAAA'']. CHR 0x0A \<notin> set l"
    by simp_all
  have three: "[''abcdef'', ''g'', ''hi''] \<noteq> []"
    "\<forall>l\<in>set [''abcdef'', ''g'', ''hi'']. CHR 0x0A \<notin> set l"
    by simp_all
  from print_text_truncates [OF G pins(1) long, THEN conjunct1]
  have 1: "print_text (\<lambda>_. True) ''AAAAAAAAAAAAAAAAAAAAAAAAA'' \<lparr>trace = [], self = example_lcd\<rparr> =
     (Inr (), \<lparr>trace =
        byte_transfer example_lcd False 0x80 @
        concat (replicate 20 (byte_transfer example_lcd True 0x41)) @
        byte_transfer example_lcd False 0xC0 @
        concat (replicate 20 (byte_transfer example_lcd True 0x20)),
      self = example_lcd\<rparr>)"
    by (simp add: geometry replicate_20)
  from print_text_truncates [OF G pins(2) three, THEN conjunct1]
  have 2: "print_text (\<lambda>_. True) (''abcdef'' @ CHR 0x0A # ''g'' @ CHR 0x0A # ''hi'')
       \<lparr>trace = [], self = example_lcd\<lparr>num_chars := 4\<rparr>\<rparr> =
     (Inr (), \<lparr>trace =
        byte_transfer (example_lcd\<lparr>num_chars := 4\<rparr>) False 0x80 @
        byte_transfer (example_lcd\<lparr>num_chars := 4\<rparr>) True 0x61 @
        byte_transfer (example_lcd\<lparr>num_chars := 4\<rparr>) True 0x62 @
        byte_transfer (example_lcd\<lparr>num_chars := 4\<rparr>) True 0x63 @
        byte_transfer (example_lcd\<lparr>num_chars := 4\<rparr>) True 0x64 @
        byte_transfer (example_lcd\<lparr>num_chars := 4\<rparr>) False 0xC0 @
        byte_transfer (example_lcd\<lparr>num_chars := 4\<rparr>) True 0x67 @
        byte_transfer (example_lcd\<lparr>num_chars := 4\<rparr>) True 0x20 @
        byte_transfer (example_lcd\<lparr>num_chars := 4\<rparr>) True 0x20 @
        byte_transfer (example_lcd\<lparr>num_chars := 4\<rparr>) True 0x20,
      self = example_lcd\<lparr>num_chars := 4\<rparr>\<rparr>)"
    by (simp add: geometry numeral_eq_Suc)
  from 1 2 show ?thesis by (rule conjI)
qed

text \<open>
  C9. Rendering leaves the object as it was: the register-select pin, the enable pin, the
  data pins, the number of columns and the line addresses are the same after the call as
  before. The object has no other field.
\<close>

theorem print_text_frame:
  "self (snd (print_text G message w)) = self w
   \<and> lcd_rs (self (snd (print_text G message w))) = lcd_rs (self w)
   \<and> lcd_e (self (snd (print_text G message w))) = lcd_e (self w)
   \<and> lcd_data_pins (self (snd (print_text G message w))) = lcd_data_pins (self w)
   \<and> num_chars (self (snd (print_text G message w))) = num_chars (self w)
   \<and> lines (self (snd (print_text G message w))) = lines (self w)"
proof -
  from regularD [OF regular_print_text, of G message "self w"]
  obtain r evs where "emits (print_text G message) (self w) r evs"
    by (elim exE)
  then have "print_text G message w = (r, w\<lparr>trace := trace w @ evs\<rparr>)"
    by (rule emitsD)
  then have "self (snd (print_text G message w)) = self w"
    by simp
  then show ?thesis
    by simp
qed

text \<open>
  C10. Whatever the text, rendering never indexes a line beyond its end: the line of each
  iteration is at least \<^verbatim>\<open>num_chars\<close> long, being an input line left-justified to that width
  or that many spaces.
\<close>

theorem print_text_index_in_bounds:
  "fst (print_text G message w) \<noteq> Inl (IndexError ''string index out of range'')
   \<and> nat n \<le> length (fst (next_line n pending))
   \<and> next_line n [] = (replicate (nat n) (CHR '' ''), [])
   \<and> next_line n (l # ls) = (l @ replicate (nat n - length l) (CHR '' ''), ls)"
  using never_print_text [of G message] next_line_covers [of n pending]
  by (simp add: never_raises_def next_line_def ljust_def str_times_def nat_diff_distrib')

section \<open>Construction\<close>





end
